theory Spec2Isabelle
  imports Complex_Main "HOL-Library.Char_ord" "HOL-Library.List_Lexorder" "HOL-Library.Multiset"
begin

section \<open>The feed generator \<open>generate_feed.py\<close>\<close>

text \<open>
  A shallow embedding of \<open>generate_feed.py\<close>. Everything the script does to the outside
  (printing, writing \<open>feed.xml\<close>, raising) is a value the model returns, and everything
  it reads from the outside (the metadata file, the audio files, the clock) is a field of
  the world it is run in.

  Python strings are byte lists in UTF-8 (\<open>string\<close>): the order of UTF-8 byte lists is
  the order of the code point sequences they encode, which is how Python compares \<open>str\<close>,
  and \<open>str.encode()\<close> is the identity on them. Paths are joined as on POSIX. The
  standard library's digest and XML serialiser are parameters. Opening and writing
  \<open>feed.xml\<close> is taken to succeed.
\<close>

subsection \<open>Data\<close>

text \<open>
  An episode record is a JSON object whose values are strings (every field the script
  reads is one), kept as the list of its items; \<open>ep[k]\<close> and \<open>ep.get(k)\<close> read it through
  \<open>map_of\<close>. Objects with values of other types are outside the model. The loaded
  document may be any JSON value, and so may the elements of an array: the script never
  checks the shape of what it loads.
\<close>

type_synonym episode = "(string \<times> string) list"

datatype json =
    JNull
  | JBool bool
  | JNum real
  | JStr string
  | JArr "json list"
  | JObj episode

datatype pyerr =
    KeyError string
  | AttributeError
  | TypeError
  | JSONDecodeError
  | ExpatError

text \<open>An \<open>xml.etree.ElementTree.Element\<close>: tag, attributes in the order set, text, children.\<close>

datatype xml =
  Element (tag: string) (attrib: "(string \<times> string) list") (etext: "string option")
    (children: "xml list")

text \<open>What \<open>episodes.json\<close> holds: no such file, text that is not JSON, or a JSON value.\<close>

datatype meta_file = Absent | Invalid | Content json

text \<open>
  The world the script runs in. \<open>path_exists\<close> and \<open>getsize\<close> are \<open>os.path.exists\<close> and
  \<open>os.path.getsize\<close>; \<open>utcnow k\<close> is the formatted reading of the clock at the \<open>k\<close>-th
  call of \<open>datetime.now\<close> (counted from 0); \<open>md5_hexdigest\<close> is
  \<open>hashlib.md5(b).hexdigest()\<close>; \<open>toprettyxml\<close> is lines 119-120, the standard library's
  \<open>tostring\<close>, \<open>parseString\<close> and \<open>toprettyxml\<close>, which may raise.
\<close>

record world =
  episodes_meta :: meta_file
  path_exists :: "string \<Rightarrow> bool"
  getsize :: "string \<Rightarrow> nat"
  utcnow :: "nat \<Rightarrow> string"
  md5_hexdigest :: "string \<Rightarrow> string"
  toprettyxml :: "xml \<Rightarrow> pyerr + string"

text \<open>What a run of \<open>main\<close> leaves behind: the lines printed, the files written (path and
  content, in order), and the exception that ended it, if any.\<close>

record run =
  stdout :: "string list"
  written :: "(string \<times> string) list"
  raised :: "pyerr option"

subsection \<open>Constants\<close>

record podcast =
  title :: string
  description :: string
  author :: string
  email :: string
  website :: string
  language :: string
  category :: string
  subcategory :: string
  image_href :: string
  base_url :: string
  explicit :: string

definition PODCAST :: podcast where
  "PODCAST = \<lparr>
     title = ''The Truth Report'',
     description = ''AI-produced investigative journalism exposing underreported stories. ''
       @ ''Hosted by Alex Truth and Maya Clarity. Researched by Aurora (Gemini), ''
       @ ''scripted and produced by Claudia (Claude). A JackKnifeAI production.'',
     author = ''JackKnifeAI'',
     email = ''jackknifeai@gmail.com'',
     website = ''https://jackknifeai.github.io/truth-report-podcast'',
     language = ''en'',
     category = ''News'',
     subcategory = ''News Commentary'',
     image_href = ''https://jackknifeai.github.io/truth-report-podcast/cover.png'',
     base_url = ''https://jackknifeai.github.io/truth-report-podcast'',
     explicit = ''no'' \<rparr>"

definition EPISODES_DIR :: string where
  "EPISODES_DIR = ''episodes''"

subsection \<open>Python primitives\<close>

text \<open>\<open>ep[k]\<close>: a missing key raises \<open>KeyError\<close>.\<close>

definition getitem :: "episode \<Rightarrow> string \<Rightarrow> pyerr + string" where
  "getitem ep k = (case map_of ep k of None \<Rightarrow> Inl (KeyError k) | Some v \<Rightarrow> Inr v)"

text \<open>\<open>ep.get(k, d)\<close>.\<close>

definition get_default :: "episode \<Rightarrow> string \<Rightarrow> string \<Rightarrow> string" where
  "get_default ep k d = (case map_of ep k of None \<Rightarrow> d | Some v \<Rightarrow> v)"

text \<open>Truth value of a loaded value, as \<open>not episodes\<close> tests it.\<close>

fun truthy :: "json \<Rightarrow> bool" where
  "truthy JNull = False"
| "truthy (JBool b) = b"
| "truthy (JNum x) = (x \<noteq> 0)"
| "truthy (JStr s) = (s \<noteq> [])"
| "truthy (JArr xs) = (xs \<noteq> [])"
| "truthy (JObj kvs) = (kvs \<noteq> [])"

text \<open>Iteration, as \<open>sorted\<close> does it: a list gives its elements, a string its characters,
  a dict its keys; nothing else is iterable.\<close>

fun py_iter :: "json \<Rightarrow> pyerr + json list" where
  "py_iter (JArr xs) = Inr xs"
| "py_iter (JStr s) = Inr (map (\<lambda>c. JStr [c]) s)"
| "py_iter (JObj kvs) = Inr (map (\<lambda>kv. JStr (fst kv)) kvs)"
| "py_iter v = Inl TypeError"

text \<open>\<open>len\<close>.\<close>

fun py_len :: "json \<Rightarrow> pyerr + nat" where
  "py_len (JArr xs) = Inr (length xs)"
| "py_len (JStr s) = Inr (length s)"
| "py_len (JObj kvs) = Inr (length kvs)"
| "py_len v = Inl TypeError"

text \<open>\<open>str\<close> of a non-negative integer.\<close>

fun str_nat :: "nat \<Rightarrow> string" where
  "str_nat n =
     (if n < 10 then [''0123456789'' ! n]
      else str_nat (n div 10) @ [''0123456789'' ! (n mod 10)])"

declare str_nat.simps [simp del]

text \<open>\<open>os.path.join\<close> of two components (POSIX).\<close>

definition path_join :: "string \<Rightarrow> string \<Rightarrow> string" where
  "path_join a b =
     (if b \<noteq> [] \<and> hd b = CHR ''/'' then b
      else if a = [] \<or> last a = CHR ''/'' then a @ b
      else a @ ''/'' @ b)"

text \<open>
  The sort key \<open>lambda x: x.get("date", "")\<close>. \<open>sorted\<close> evaluates it on every element,
  in order, before it compares any; only a dict has \<open>get\<close>, so the first element that is
  not one raises \<open>AttributeError\<close>. What is left is a list of records.
\<close>

fun keyed :: "json list \<Rightarrow> pyerr + episode list" where
  "keyed [] = Inr []"
| "keyed (v # vs) =
     (case v of
        JObj ep \<Rightarrow> (case keyed vs of Inl e \<Rightarrow> Inl e | Inr eps \<Rightarrow> Inr (ep # eps))
      | _ \<Rightarrow> Inl AttributeError)"

definition date_key :: "episode \<Rightarrow> string" where
  "date_key x = get_default x ''date'' ''''"

text \<open>
  \<open>sorted(xs, key=f, reverse=True)\<close>: a stable sort that keeps elements with equal keys
  in their original order; CPython reverses, sorts ascending and stable, and reverses.
\<close>

definition sorted_reverse :: "('a \<Rightarrow> string) \<Rightarrow> 'a list \<Rightarrow> 'a list" where
  "sorted_reverse f xs = rev (sort_key f (rev xs))"

subsection \<open>The script\<close>

definition load_episodes :: "world \<Rightarrow> pyerr + json" where
  "load_episodes w =
     (case episodes_meta w of
        Absent \<Rightarrow> Inr (JArr [])
      | Invalid \<Rightarrow> Inl JSONDecodeError
      | Content v \<Rightarrow> Inr v)"

definition get_file_size :: "world \<Rightarrow> string \<Rightarrow> nat" where
  "get_file_size w fp = getsize w fp"

definition generate_guid :: "world \<Rightarrow> episode \<Rightarrow> pyerr + string" where
  "generate_guid w episode =
     (case getitem episode ''filename'' of
        Inl e \<Rightarrow> Inl e
      | Inr fn \<Rightarrow> Inr (md5_hexdigest w fn))"

text \<open>A leaf element with a text, \<open>SubElement(parent, tag).text = s\<close>.\<close>

definition leaf :: "string \<Rightarrow> string \<Rightarrow> xml" where
  "leaf t s = Element t [] (Some s) []"

text \<open>Lines 65-91: the children of \<open>channel\<close> before any item.\<close>

definition channel_metadata :: "xml list" where
  "channel_metadata =
     [leaf ''title'' (title PODCAST),
      leaf ''description'' (description PODCAST),
      leaf ''language'' (language PODCAST),
      leaf ''link'' (website PODCAST),
      Element ''atom:link''
        [(''href'', base_url PODCAST @ ''/feed.xml''), (''rel'', ''self''),
         (''type'', ''application/rss+xml'')] None [],
      leaf ''itunes:author'' (author PODCAST),
      leaf ''itunes:summary'' (description PODCAST),
      leaf ''itunes:explicit'' (explicit PODCAST),
      Element ''itunes:owner'' [] None
        [leaf ''itunes:name'' (author PODCAST), leaf ''itunes:email'' (email PODCAST)],
      Element ''itunes:image'' [(''href'', image_href PODCAST)] None [],
      Element ''itunes:category'' [(''text'', category PODCAST)] None
        [Element ''itunes:category'' [(''text'', subcategory PODCAST)] None []]]"

text \<open>
  Lines 100-116: the item of one episode whose file exists. \<open>k\<close> is the number of clock
  readings taken so far: line 111 reads the clock whether or not the record has a date.
\<close>

definition build_item :: "world \<Rightarrow> nat \<Rightarrow> string \<Rightarrow> episode \<Rightarrow> pyerr + xml" where
  "build_item w k fp ep =
     (case getitem ep ''title'' of
        Inl e \<Rightarrow> Inl e
      | Inr t \<Rightarrow>
          (case generate_guid w ep of
             Inl e \<Rightarrow> Inl e
           | Inr guid \<Rightarrow>
               (case getitem ep ''filename'' of
                  Inl e \<Rightarrow> Inl e
                | Inr fn \<Rightarrow>
                    Inr (Element ''item'' [] None
                      ([leaf ''title'' t,
                        leaf ''description'' (get_default ep ''description'' ''''),
                        leaf ''itunes:summary'' (get_default ep ''description'' ''''),
                        leaf ''itunes:author'' (author PODCAST),
                        leaf ''itunes:explicit'' (explicit PODCAST)]
                       @ (case map_of ep ''duration'' of
                            None \<Rightarrow> []
                          | Some d \<Rightarrow> if d \<noteq> [] then [leaf ''itunes:duration'' d] else [])
                       @ [leaf ''guid'' guid,
                          leaf ''pubDate'' (get_default ep ''date'' (utcnow w k)),
                          Element ''enclosure''
                            [(''url'', base_url PODCAST @ ''/episodes/'' @ fn),
                             (''length'', str_nat (get_file_size w fp)),
                             (''type'', ''audio/mpeg'')] None []])))))"

text \<open>Line 95: the path of the record's audio file.\<close>

definition filepath :: "episode \<Rightarrow> pyerr + string" where
  "filepath ep =
     (case getitem ep ''filename'' of
        Inl e \<Rightarrow> Inl e
      | Inr fn \<Rightarrow> Inr (path_join EPISODES_DIR fn))"

definition warning :: "string \<Rightarrow> string" where
  "warning fp = ''WARNING: '' @ fp @ '' not found, skipping''"

text \<open>
  Lines 94-116, the loop over the sorted records. \<open>items\<close> are the items appended to
  \<open>channel\<close> so far and \<open>k\<close> the clock readings so far. The result is the lines printed
  and either the exception that stopped the loop or the items.
\<close>

fun episodes_loop ::
  "world \<Rightarrow> episode list \<Rightarrow> nat \<Rightarrow> xml list \<Rightarrow> string list \<times> (pyerr + xml list)" where
  "episodes_loop w [] k items = ([], Inr items)"
| "episodes_loop w (ep # eps) k items =
     (case filepath ep of
        Inl e \<Rightarrow> ([], Inl e)
      | Inr fp \<Rightarrow>
          if \<not> path_exists w fp then
            (case episodes_loop w eps k items of
               (out, r) \<Rightarrow> (warning fp # out, r))
          else
            (case build_item w k fp ep of
               Inl e \<Rightarrow> ([], Inl e)
             | Inr item \<Rightarrow> episodes_loop w eps (Suc k) (items @ [item])))"

text \<open>
  Lines 56-116: the \<open>rss\<close> element, before it is serialised. Line 94 iterates over the
  loaded value, evaluates the sort key of every element and sorts; the loop follows.
\<close>

definition rss_element :: "xml list \<Rightarrow> xml" where
  "rss_element items =
     Element ''rss''
       [(''version'', ''2.0''),
        (''xmlns:itunes'', ''http://www.itunes.com/dtds/podcast-1.0.dtd''),
        (''xmlns:content'', ''http://purl.org/rss/1.0/modules/content/''),
        (''xmlns:atom'', ''http://www.w3.org/2005/Atom'')] None
       [Element ''channel'' [] None (channel_metadata @ items)]"

definition rss_tree :: "world \<Rightarrow> json \<Rightarrow> string list \<times> (pyerr + xml)" where
  "rss_tree w episodes =
     (case py_iter episodes of
        Inl e \<Rightarrow> ([], Inl e)
      | Inr vs \<Rightarrow>
          (case keyed vs of
             Inl e \<Rightarrow> ([], Inl e)
           | Inr eps \<Rightarrow>
               (case episodes_loop w
                       (sorted_reverse date_key eps) 0 [] of
                  (out, Inl e) \<Rightarrow> (out, Inl e)
                | (out, Inr items) \<Rightarrow> (out, Inr (rss_element items)))))"

text \<open>
  \<open>generate_rss\<close>: the document of lines 56-116, then lines 119-121. \<open>episodes\<close> is
  whatever \<open>load_episodes\<close> returned. The result is the lines printed and either the
  exception raised or the bytes of the feed.
\<close>

definition generate_rss :: "world \<Rightarrow> json \<Rightarrow> string list \<times> (pyerr + string)" where
  "generate_rss w episodes =
     (case rss_tree w episodes of
        (out, Inl e) \<Rightarrow> (out, Inl e)
      | (out, Inr rss) \<Rightarrow> (out, toprettyxml w rss))"

text \<open>
  \<open>main\<close>, lines 124-136. The feed is written only after \<open>generate_rss\<close> has returned
  it; the summary is printed after the file is written.
\<close>

definition main :: "world \<Rightarrow> run" where
  "main w =
     (case load_episodes w of
        Inl e \<Rightarrow> \<lparr>stdout = [], written = [], raised = Some e\<rparr>
      | Inr episodes \<Rightarrow>
          if \<not> truthy episodes then
            \<lparr>stdout = [''No episodes found in episodes.json!''], written = [], raised = None\<rparr>
          else
            (case generate_rss w episodes of
               (out, Inl e) \<Rightarrow> \<lparr>stdout = out, written = [], raised = Some e\<rparr>
             | (out, Inr feed) \<Rightarrow>
                 (case py_len episodes of
                    Inl e \<Rightarrow>
                      \<lparr>stdout = out, written = [(''feed.xml'', feed)], raised = Some e\<rparr>
                  | Inr n \<Rightarrow>
                      \<lparr>stdout = out @
                         [''Generated feed.xml with '' @ str_nat n @ '' episodes'',
                          ''Feed URL: '' @ base_url PODCAST @ ''/feed.xml''],
                       written = [(''feed.xml'', feed)], raised = None\<rparr>)))"

subsection \<open>Vocabulary of the properties\<close>

text \<open>All elements of a document, in document order, and its \<open>item\<close> elements.\<close>

fun elements :: "xml \<Rightarrow> xml list" where
  "elements (Element t a x cs) = Element t a x cs # concat (map elements cs)"

definition feed_items :: "xml \<Rightarrow> xml list" where
  "feed_items rss = filter (\<lambda>c. tag c = ''item'') (elements rss)"

text \<open>The record has the key.\<close>

definition has_field :: "string \<Rightarrow> episode \<Rightarrow> bool" where
  "has_field k ep = (map_of ep k \<noteq> None)"

text \<open>A well-formed record has the two required fields.\<close>

definition well_formed :: "episode \<Rightarrow> bool" where
  "well_formed ep = (has_field ''filename'' ep \<and> has_field ''title'' ep)"

text \<open>The record names a file that \<open>os.path.exists\<close> finds under the episodes directory.\<close>

definition file_exists :: "world \<Rightarrow> episode \<Rightarrow> bool" where
  "file_exists w ep = (case filepath ep of Inl e \<Rightarrow> False | Inr fp \<Rightarrow> path_exists w fp)"

text \<open>The warning printed for a record that is skipped.\<close>

definition skip_warning :: "episode \<Rightarrow> string" where
  "skip_warning ep = (case filepath ep of Inl e \<Rightarrow> [] | Inr fp \<Rightarrow> warning fp)"

text \<open>The item built for a record at the \<open>k\<close>-th clock reading.\<close>

definition item_at :: "world \<Rightarrow> nat \<Rightarrow> episode \<Rightarrow> pyerr + xml" where
  "item_at w k ep = (case filepath ep of Inl e \<Rightarrow> Inl e | Inr fp \<Rightarrow> build_item w k fp ep)"

text \<open>The records in the order the loop visits them.\<close>

definition visit_order :: "episode list \<Rightarrow> episode list" where
  "visit_order eps = sorted_reverse date_key eps"

text \<open>
  What the loop needs of a record to get past it: a filename, and a title if the file is
  there. A record without a filename names no file, so \<open>file_exists\<close> is false for it.
\<close>

definition loop_ready :: "world \<Rightarrow> episode \<Rightarrow> bool" where
  "loop_ready w ep =
     (has_field ''filename'' ep \<and> (file_exists w ep \<longrightarrow> has_field ''title'' ep))"

text \<open>The text of the first child with a given tag.\<close>

definition child_text :: "string \<Rightarrow> xml \<Rightarrow> string option" where
  "child_text t e =
     (case filter (\<lambda>c. tag c = t) (children e) of [] \<Rightarrow> None | c # cs \<Rightarrow> etext c)"

text \<open>The records of the metadata file: the objects of its array, if it holds one.\<close>

definition records_of :: "meta_file \<Rightarrow> episode list" where
  "records_of m =
     (case m of
        Content (JArr vs) \<Rightarrow> concat (map (\<lambda>x. case x of JObj ep \<Rightarrow> [ep] | _ \<Rightarrow> []) vs)
      | _ \<Rightarrow> [])"

subsection \<open>Sample inputs\<close>

text \<open>
  Concrete records and worlds on which the properties below are run. The two library
  functions of a world are filled with the plainest functions of their type: the digest
  of a byte string is the string itself, and the serialiser prints the document as
  unindented XML text and never raises. A sample world is given by the metadata file
  and the list of the paths that exist.
\<close>

fun escape :: "string \<Rightarrow> string" where
  "escape [] = []"
| "escape (c # cs) =
     (if c = CHR ''&'' then ''&amp;''
      else if c = CHR ''<'' then ''&lt;''
      else if c = CHR ''>'' then ''&gt;''
      else [c]) @ escape cs"

fun xml_text :: "xml \<Rightarrow> string" where
  "xml_text (Element t a x cs) =
     ''<'' @ t
       @ concat (map (\<lambda>kv. '' '' @ fst kv @ ''='' @ [CHR 0x22] @ escape (snd kv) @ [CHR 0x22]) a)
       @ ''>'' @ (case x of None \<Rightarrow> [] | Some s \<Rightarrow> escape s) @ concat (map xml_text cs)
       @ ''</'' @ t @ ''>''"

definition sample_world :: "meta_file \<Rightarrow> string list \<Rightarrow> world" where
  "sample_world meta files =
     \<lparr>episodes_meta = meta,
      path_exists = (\<lambda>p. p \<in> set files),
      getsize = (\<lambda>p. 1048576),
      utcnow = (\<lambda>k. ''Tue, 03 Nov 2026 09:00:00 +0000''),
      md5_hexdigest = (\<lambda>b. b),
      toprettyxml = (\<lambda>t. Inr (xml_text t))\<rparr>"

text \<open>Well-formed records: two dated ones, one without a date, one with an empty duration.\<close>

definition ep_jan1 :: episode where
  "ep_jan1 =
     [(''filename'', ''jan1.mp3''), (''title'', ''New Year''),
      (''date'', ''Wed, 01 Jan 2025 00:00:00 +0000'')]"

definition ep_jan2 :: episode where
  "ep_jan2 =
     [(''filename'', ''jan2.mp3''), (''title'', ''Day Two''), (''duration'', ''12:34''),
      (''date'', ''Thu, 02 Jan 2025 00:00:00 +0000'')]"

definition ep_undated :: episode where
  "ep_undated = [(''filename'', ''pilot.mp3''), (''title'', ''Pilot'')]"

definition ep_silent :: episode where
  "ep_silent = [(''filename'', ''silent.mp3''), (''title'', ''Silence''), (''duration'', '''')]"

text \<open>
  Records that lack a required field: two without a title, one without a filename; and
  \<open>ep_lost\<close> with a title and a description added.
\<close>

definition ep_draft :: episode where
  "ep_draft = [(''filename'', ''draft.mp3'')]"

definition ep_lost :: episode where
  "ep_lost = [(''filename'', ''lost.mp3'')]"

definition ep_nameless :: episode where
  "ep_nameless = [(''title'', ''No file'')]"

definition ep_found :: episode where
  "ep_found = [(''filename'', ''lost.mp3''), (''title'', ''Found''), (''description'', ''Back'')]"

text \<open>What is on disk.\<close>

definition three_files :: "string list" where
  "three_files = [''episodes/jan1.mp3'', ''episodes/jan2.mp3'', ''episodes/pilot.mp3'']"

definition one_file :: "string list" where
  "one_file = [''episodes/jan2.mp3'']"

definition draft_file :: "string list" where
  "draft_file = [''episodes/draft.mp3'']"

section \<open>Properties\<close>

subsection \<open>Sorting and key evaluation\<close>

text \<open>
  \<open>sorted_reverse\<close> permutes its argument and commutes with \<open>filter\<close>; \<open>keyed\<close> succeeds
  exactly on lists of objects.
\<close>

lemma set_sorted_reverse: "set (sorted_reverse f xs) = set xs"
  by (simp add: sorted_reverse_def)

lemma mset_sorted_reverse: "mset (sorted_reverse f xs) = mset xs"
  by (simp add: sorted_reverse_def)

lemma length_sorted_reverse: "length (sorted_reverse f xs) = length xs"
  by (simp add: sorted_reverse_def)

lemma filter_sorted_reverse:
  "filter P (sorted_reverse f xs) = sorted_reverse f (filter P xs)"
  by (simp add: sorted_reverse_def rev_filter [symmetric] filter_sort)

lemma keyed_map_JObj: "keyed (map JObj eps) = Inr eps"
  by (induction eps) simp_all

lemma keyed_Inr: "keyed vs = Inr eps \<Longrightarrow> vs = map JObj eps"
  by (induction vs arbitrary: eps) (auto split: json.splits sum.splits)

lemma keyed_Inl: "keyed vs = Inl e \<Longrightarrow> e = AttributeError"
  by (induction vs) (auto split: json.splits sum.splits)

subsection \<open>One record\<close>

text \<open>
  When line 95 and the item builder succeed, and with which exception they fail.
\<close>

lemma filepath_Inr_iff:
  "filepath ep = Inr fp \<longleftrightarrow>
     (\<exists>fn. map_of ep ''filename'' = Some fn \<and> fp = path_join EPISODES_DIR fn)"
  by (auto simp: filepath_def getitem_def split: option.splits)

lemma filepath_Inl_iff:
  "filepath ep = Inl e \<longleftrightarrow> (map_of ep ''filename'' = None \<and> e = KeyError ''filename'')"
  by (auto simp: filepath_def getitem_def split: option.splits)

lemma build_item_no_title:
  "map_of ep ''title'' = None \<Longrightarrow> build_item w k fp ep = Inl (KeyError ''title'')"
  by (simp add: build_item_def getitem_def)

lemma build_item_Inr:
  "map_of ep ''title'' = Some t \<Longrightarrow> map_of ep ''filename'' = Some fn \<Longrightarrow>
     \<exists>it. build_item w k fp ep = Inr it"
  by (simp add: build_item_def getitem_def generate_guid_def)

lemma build_item_tag: "build_item w k fp ep = Inr it \<Longrightarrow> tag it = ''item''"
  by (auto simp: build_item_def split: sum.splits)

lemma build_item_items: "build_item w k fp ep = Inr it \<Longrightarrow> feed_items it = [it]"
  by (auto simp: build_item_def feed_items_def leaf_def split: sum.splits option.splits)

subsection \<open>The loop\<close>

text \<open>
  The loop runs to its end exactly when every record is \<open>loop_ready\<close>: then it prints
  one warning for each record whose file is missing and appends one item for each of
  the others, reading the clock once per item. Otherwise it stops with a \<open>KeyError\<close> at
  the first record that is not ready.
\<close>

lemma loop_ok:
  assumes "\<forall>ep\<in>set eps. loop_ready w ep"
  shows "\<exists>its. episodes_loop w eps k items =
           (map skip_warning (filter (\<lambda>ep. \<not> file_exists w ep) eps), Inr (items @ its))
         \<and> map Inr its = map (\<lambda>(i, ep). item_at w i ep) (enumerate k (filter (file_exists w) eps))"
  using assms
proof (induction eps arbitrary: k items)
  case Nil
  then show ?case by simp
next
  case (Cons ep eps)
  from Cons.prems obtain fn where fn: "map_of ep ''filename'' = Some fn"
    by (auto simp: loop_ready_def has_field_def)
  then have fp: "filepath ep = Inr (path_join EPISODES_DIR fn)"
    by (simp add: filepath_Inr_iff)
  from Cons.prems have rest: "\<forall>ep\<in>set eps. loop_ready w ep" by simp
  show ?case
  proof (cases "path_exists w (path_join EPISODES_DIR fn)")
    case False
    then have ne: "\<not> file_exists w ep" by (simp add: file_exists_def fp)
    from Cons.IH [OF rest, of k items] obtain its where
      "episodes_loop w eps k items =
         (map skip_warning (filter (\<lambda>ep. \<not> file_exists w ep) eps), Inr (items @ its))"
      "map Inr its = map (\<lambda>(i, ep). item_at w i ep) (enumerate k (filter (file_exists w) eps))"
      by blast
    with False ne show ?thesis
      by (simp add: fp skip_warning_def)
  next
    case True
    then have ex: "file_exists w ep" by (simp add: file_exists_def fp)
    with Cons.prems obtain t where "map_of ep ''title'' = Some t"
      by (auto simp: loop_ready_def has_field_def)
    with fn obtain it where it: "build_item w k (path_join EPISODES_DIR fn) ep = Inr it"
      using build_item_Inr by blast
    from Cons.IH [OF rest, of "Suc k" "items @ [it]"] obtain its where
      "episodes_loop w eps (Suc k) (items @ [it]) =
         (map skip_warning (filter (\<lambda>ep. \<not> file_exists w ep) eps), Inr ((items @ [it]) @ its))"
      "map Inr its = map (\<lambda>(i, ep). item_at w i ep) (enumerate (Suc k) (filter (file_exists w) eps))"
      by blast
    with True ex it show ?thesis
      by (intro exI [of _ "it # its"]) (simp add: fp item_at_def)
  qed
qed

lemma loop_fail:
  assumes "\<exists>ep\<in>set eps. \<not> loop_ready w ep"
  shows "\<exists>out key. episodes_loop w eps k items = (out, Inl (KeyError key))"
  using assms
proof (induction eps arbitrary: k items)
  case Nil
  then show ?case by simp
next
  case (Cons ep eps)
  show ?case
  proof (cases "loop_ready w ep")
    case False
    show ?thesis
    proof (cases "map_of ep ''filename''")
      case None
      then have "filepath ep = Inl (KeyError ''filename'')" by (simp add: filepath_Inl_iff)
      then show ?thesis by simp
    next
      case (Some fn)
      then have fp: "filepath ep = Inr (path_join EPISODES_DIR fn)"
        by (simp add: filepath_Inr_iff)
      with False Some have "path_exists w (path_join EPISODES_DIR fn)" "map_of ep ''title'' = None"
        by (auto simp: loop_ready_def has_field_def file_exists_def)
      then show ?thesis by (simp add: fp build_item_no_title)
    qed
  next
    case True
    with Cons.prems have rest: "\<exists>ep\<in>set eps. \<not> loop_ready w ep" by auto
    from True obtain fn where fn: "map_of ep ''filename'' = Some fn"
      by (auto simp: loop_ready_def has_field_def)
    then have fp: "filepath ep = Inr (path_join EPISODES_DIR fn)"
      by (simp add: filepath_Inr_iff)
    show ?thesis
    proof (cases "path_exists w (path_join EPISODES_DIR fn)")
      case False
      from Cons.IH [OF rest, of k items] obtain out key where
        "episodes_loop w eps k items = (out, Inl (KeyError key))" by blast
      with False show ?thesis by (simp add: fp)
    next
      case ex: True
      then have "file_exists w ep" by (simp add: file_exists_def fp)
      with True obtain t where "map_of ep ''title'' = Some t"
        by (auto simp: loop_ready_def has_field_def)
      with fn obtain it where it: "build_item w k (path_join EPISODES_DIR fn) ep = Inr it"
        using build_item_Inr by blast
      from Cons.IH [OF rest, of "Suc k" "items @ [it]"] obtain out key where
        "episodes_loop w eps (Suc k) (items @ [it]) = (out, Inl (KeyError key))" by blast
      with ex it show ?thesis by (simp add: fp)
    qed
  qed
qed

subsection \<open>The document\<close>

text \<open>
  The \<open>item\<close> elements of the document are the items the loop appended: the channel
  metadata has none, and an item has none inside it.
\<close>

lemma feed_items_metadata:
  "filter (\<lambda>c. tag c = ''item'') (concat (map elements channel_metadata)) = []"
  by (simp add: channel_metadata_def leaf_def)

lemma filter_elements_built:
  assumes "\<forall>it\<in>set its. feed_items it = [it]"
  shows "filter (\<lambda>c. tag c = ''item'') (concat (map elements its)) = its"
  using assms by (induction its) (simp_all add: feed_items_def)

lemma feed_items_rss_element:
  assumes "\<forall>it\<in>set its. feed_items it = [it]"
  shows "feed_items (rss_element its) = its"
  using filter_elements_built [OF assms] feed_items_metadata
  by (simp add: feed_items_def rss_element_def)

lemma item_at_items: "item_at w k ep = Inr it \<Longrightarrow> feed_items it = [it]"
  by (auto simp: item_at_def build_item_items split: sum.splits)

lemma built_all_items:
  assumes "map Inr its = map (\<lambda>(i, ep). item_at w i ep) xs"
  shows "\<forall>it\<in>set its. feed_items it = [it]"
proof
  fix it assume "it \<in> set its"
  moreover have "Inr ` set its = (\<lambda>(i, ep). item_at w i ep) ` set xs"
    using arg_cong [OF assms, of set] by simp
  ultimately have "Inr it \<in> (\<lambda>(i, ep). item_at w i ep) ` set xs" by blast
  then obtain i ep where "item_at w i ep = Inr it" by auto
  then show "feed_items it = [it]" by (rule item_at_items)
qed

lemma rss_tree_ok:
  assumes "\<forall>ep\<in>set eps. loop_ready w ep"
  shows "\<exists>t. rss_tree w (JArr (map JObj eps)) =
           (map skip_warning (filter (\<lambda>ep. \<not> file_exists w ep) (visit_order eps)), Inr t)
         \<and> map Inr (feed_items t) =
             map (\<lambda>(i, ep). item_at w i ep) (enumerate 0 (filter (file_exists w) (visit_order eps)))"
proof -
  from assms have "\<forall>ep\<in>set (visit_order eps). loop_ready w ep"
    by (simp add: visit_order_def set_sorted_reverse)
  from loop_ok [OF this, of 0 "[]"] obtain its where
    loop: "episodes_loop w (visit_order eps) 0 [] =
       (map skip_warning (filter (\<lambda>ep. \<not> file_exists w ep) (visit_order eps)), Inr its)"
    and its: "map Inr its =
       map (\<lambda>(i, ep). item_at w i ep) (enumerate 0 (filter (file_exists w) (visit_order eps)))"
    by auto
  from built_all_items [OF its] have "feed_items (rss_element its) = its"
    by (rule feed_items_rss_element)
  with loop its show ?thesis
    by (simp add: rss_tree_def keyed_map_JObj visit_order_def)
qed

lemma rss_tree_fail:
  assumes "\<exists>ep\<in>set eps. \<not> loop_ready w ep"
  shows "\<exists>out key. rss_tree w (JArr (map JObj eps)) = (out, Inl (KeyError key))"
proof -
  from assms have "\<exists>ep\<in>set (visit_order eps). \<not> loop_ready w ep"
    by (simp add: visit_order_def set_sorted_reverse)
  from loop_fail [OF this, of 0 "[]"] show ?thesis
    by (auto simp: rss_tree_def keyed_map_JObj visit_order_def)
qed

subsection \<open>The order of the records\<close>

lemma well_formed_loop_ready: "well_formed ep \<Longrightarrow> loop_ready w ep"
  by (simp add: well_formed_def loop_ready_def)

lemma visit_order_three:
  assumes r1: "map_of r1 ''date'' = Some ''Wed, 01 Jan 2025 00:00:00 +0000''"
    and r2: "map_of r2 ''date'' = Some ''Thu, 02 Jan 2025 00:00:00 +0000''"
    and r3: "map_of r3 ''date'' = None"
    and eps: "mset eps = {#r1, r2, r3#}"
  shows "visit_order eps = [r1, r2, r3]"
proof -
  have keys: "date_key r1 = ''Wed, 01 Jan 2025 00:00:00 +0000''"
    "date_key r2 = ''Thu, 02 Jan 2025 00:00:00 +0000''" "date_key r3 = ''''"
    using r1 r2 r3 by (simp_all add: date_key_def get_default_def)
  have set: "set eps = {r1, r2, r3}"
    using arg_cong [OF eps, of set_mset] by simp
  have "sort_key date_key (rev eps) = [r3, r2, r1]"
  proof (rule sort_key_inj_key_eq)
    show "mset (rev eps) = mset [r3, r2, r1]" using eps by simp
    show "inj_on date_key (set (rev eps))"
      using keys by (auto simp: set inj_on_def)
    show "sorted (map date_key [r3, r2, r1])" using keys by simp
  qed
  then show ?thesis by (simp add: visit_order_def sorted_reverse_def)
qed

lemma visit_order_descending: "sorted (rev (map date_key (visit_order eps)))"
  by (simp add: visit_order_def sorted_reverse_def rev_map)

lemma visit_order_stable:
  "filter (\<lambda>x. date_key x = k) (visit_order eps) = filter (\<lambda>x. date_key x = k) eps"
  by (simp add: visit_order_def sorted_reverse_def rev_filter [symmetric] sort_key_stable)

lemma loop_skips_missing:
  assumes "has_field ''filename'' ep" and "\<not> file_exists w ep"
  shows "episodes_loop w (ep # rest) k items =
           (skip_warning ep # fst (episodes_loop w rest k items),
            snd (episodes_loop w rest k items))"
proof -
  from assms(1) obtain fn where "map_of ep ''filename'' = Some fn"
    by (auto simp: has_field_def)
  then have fp: "filepath ep = Inr (path_join EPISODES_DIR fn)"
    by (simp add: filepath_Inr_iff)
  with assms(2) have "\<not> path_exists w (path_join EPISODES_DIR fn)"
    by (simp add: file_exists_def)
  with fp show ?thesis
    by (simp add: skip_warning_def split: prod.splits)
qed

subsection \<open>The sample inputs\<close>

lemma item_at_title:
  "item_at w k ep = Inr it \<Longrightarrow> child_text ''title'' it = map_of ep ''title''"
  by (auto simp: item_at_def build_item_def getitem_def child_text_def leaf_def
      split: sum.splits option.splits)

lemma sample_files_exist:
  "file_exists (sample_world m three_files) ep_jan1"
  "file_exists (sample_world m three_files) ep_jan2"
  "file_exists (sample_world m three_files) ep_undated"
  by (simp_all add: ep_jan1_def ep_jan2_def ep_undated_def file_exists_def filepath_def
      getitem_def path_join_def EPISODES_DIR_def sample_world_def three_files_def)

lemma sample_well_formed:
  "well_formed ep_jan1" "well_formed ep_jan2" "well_formed ep_undated"
  by (simp_all add: ep_jan1_def ep_jan2_def ep_undated_def well_formed_def has_field_def)

lemma sample_dates:
  "map_of ep_jan1 ''date'' = Some ''Wed, 01 Jan 2025 00:00:00 +0000''"
  "map_of ep_jan2 ''date'' = Some ''Thu, 02 Jan 2025 00:00:00 +0000''"
  "map_of ep_undated ''date'' = None"
  by (simp_all add: ep_jan1_def ep_jan2_def ep_undated_def)

lemma sample_titles:
  "map_of ep_jan1 ''title'' = Some ''New Year''"
  "map_of ep_jan2 ''title'' = Some ''Day Two''"
  "map_of ep_undated ''title'' = Some ''Pilot''"
  by (simp_all add: ep_jan1_def ep_jan2_def ep_undated_def)

lemma one_file_exists:
  "file_exists (sample_world m one_file) ep_jan2"
  "\<not> file_exists (sample_world m one_file) ep_jan1"
  "\<not> file_exists (sample_world m one_file) ep_lost"
  "\<not> file_exists (sample_world m one_file) ep_undated"
  by (simp_all add: ep_jan1_def ep_jan2_def ep_lost_def ep_undated_def file_exists_def
      filepath_def getitem_def path_join_def EPISODES_DIR_def sample_world_def one_file_def)

lemma sample_untitled:
  "has_field ''filename'' ep_lost" "\<not> has_field ''title'' ep_lost"
  "has_field ''filename'' ep_draft" "\<not> has_field ''title'' ep_draft"
  "map_of ep_lost ''date'' = None" "map_of ep_draft ''date'' = None"
  by (simp_all add: ep_lost_def ep_draft_def has_field_def)

lemma sample_warnings:
  "skip_warning ep_jan1 = ''WARNING: episodes/jan1.mp3 not found, skipping''"
  "skip_warning ep_lost = ''WARNING: episodes/lost.mp3 not found, skipping''"
  "skip_warning ep_undated = ''WARNING: episodes/pilot.mp3 not found, skipping''"
  by (simp_all add: skip_warning_def filepath_def getitem_def warning_def path_join_def
      EPISODES_DIR_def ep_jan1_def ep_lost_def ep_undated_def)

subsection \<open>From the tree to the feed\<close>

lemma generate_rss_of_tree:
  "rss_tree w v = (out, Inr t) \<Longrightarrow> generate_rss w v = (out, toprettyxml w t)"
  by (simp add: generate_rss_def)

lemma generate_rss_of_failure:
  "rss_tree w v = (out, Inl e) \<Longrightarrow> generate_rss w v = (out, Inl e)"
  by (simp add: generate_rss_def)

lemma length_filter_visit_order:
  "length (filter P (visit_order eps)) = length (filter P eps)"
  by (simp add: visit_order_def filter_sorted_reverse length_sorted_reverse)

lemma mset_visit_order: "mset (visit_order eps) = mset eps"
  by (simp add: visit_order_def mset_sorted_reverse)

lemma skip_warning_format:
  "map_of ep ''filename'' = Some fn \<Longrightarrow>
     skip_warning ep = ''WARNING: '' @ path_join ''episodes'' fn @ '' not found, skipping''"
  by (simp add: skip_warning_def filepath_def getitem_def warning_def EPISODES_DIR_def)

subsection \<open>The shape of the loaded value\<close>

text \<open>
  A loaded value that is not empty gets through line 94 only if it is an array of
  objects: a number, \<open>true\<close> and \<open>null\<close> cannot be iterated, and the elements of a string or
  of a dict (its keys) are strings, which have no \<open>get\<close>. So a run of \<open>main\<close> that writes
  the feed has loaded an array of objects, and a run that raises has written nothing.
\<close>

lemma keyed_non_objects:
  assumes "keyed (map f xs) = Inr eps" and "\<And>x. \<forall>ep. f x \<noteq> JObj ep"
  shows "xs = []"
proof (cases xs)
  case Nil
  then show ?thesis .
next
  case (Cons x ys)
  with assms(1) assms(2) [of x] show ?thesis
    by (cases "f x") (auto split: sum.splits)
qed

lemma rss_tree_Inr_array:
  assumes "rss_tree w v = (out, Inr t)" and "truthy v"
  shows "\<exists>eps. v = JArr (map JObj eps)"
proof -
  from assms(1) obtain vs eps where it: "py_iter v = Inr vs" and k: "keyed vs = Inr eps"
    by (auto simp: rss_tree_def split: sum.splits prod.splits)
  from k have vs: "vs = map JObj eps" by (rule keyed_Inr)
  show ?thesis
  proof (cases v)
    case (JArr xs)
    with it vs show ?thesis by auto
  next
    case (JStr s)
    with it k have "keyed (map (\<lambda>c. JStr [c]) s) = Inr eps" by simp
    then have "s = []" by (rule keyed_non_objects) simp
    with JStr assms(2) show ?thesis by simp
  next
    case (JObj kvs)
    with it k have "keyed (map (\<lambda>kv. JStr (fst kv)) kvs) = Inr eps" by simp
    then have "kvs = []" by (rule keyed_non_objects) simp
    with JObj assms(2) show ?thesis by simp
  qed (use it in simp_all)
qed

lemma rss_tree_Inr_ready:
  assumes "rss_tree w (JArr (map JObj eps)) = (out, Inr t)"
  shows "\<forall>ep\<in>set eps. loop_ready w ep"
proof (rule ccontr)
  assume "\<not> (\<forall>ep\<in>set eps. loop_ready w ep)"
  then have "\<exists>ep\<in>set eps. \<not> loop_ready w ep" by simp
  from rss_tree_fail [OF this] assms show False by auto
qed

lemma rss_tree_not_array:
  assumes "truthy v" and "\<nexists>eps. v = JArr (map JObj eps)"
  shows "\<exists>out e. rss_tree w v = (out, Inl e)"
proof (cases "rss_tree w v")
  case (Pair out r)
  show ?thesis
  proof (cases r)
    case (Inl e)
    with Pair show ?thesis by simp
  next
    case (Inr t)
    with Pair assms(1) have "\<exists>eps. v = JArr (map JObj eps)"
      by (auto intro: rss_tree_Inr_array)
    with assms(2) show ?thesis by simp
  qed
qed

lemma main_success:
  assumes "raised (main w) = None" and "written (main w) \<noteq> []"
  shows "\<exists>v out feed n. episodes_meta w = Content v \<and> truthy v
       \<and> generate_rss w v = (out, Inr feed) \<and> py_len v = Inr n
       \<and> main w = \<lparr>stdout = out @
                     [''Generated feed.xml with '' @ str_nat n @ '' episodes'',
                      ''Feed URL: '' @ base_url PODCAST @ ''/feed.xml''],
                   written = [(''feed.xml'', feed)], raised = None\<rparr>"
  using assms
  by (auto simp: main_def load_episodes_def split: sum.splits prod.splits if_splits meta_file.splits)

lemma main_failure:
  assumes "episodes_meta w = Content v" and "truthy v" and "generate_rss w v = (out, Inl e)"
  shows "main w = \<lparr>stdout = out, written = [], raised = Some e\<rparr>"
  using assms by (simp add: main_def load_episodes_def)

lemma main_raised_nothing_written:
  assumes "raised (main w) = Some e"
  shows "written (main w) = []"
proof (cases "load_episodes w")
  case (Inl e')
  then show ?thesis by (simp add: main_def)
next
  case (Inr v)
  show ?thesis
  proof (cases "truthy v")
    case False
    with Inr show ?thesis by (simp add: main_def)
  next
    case True
    obtain out r where g: "generate_rss w v = (out, r)" by (cases "generate_rss w v")
    show ?thesis
    proof (cases r)
      case (Inl e')
      with Inr True g show ?thesis by (simp add: main_def)
    next
      case feed: (Inr feed)
      with g obtain t where "rss_tree w v = (out, Inr t)"
        by (auto simp: generate_rss_def split: sum.splits prod.splits)
      with True obtain eps where "v = JArr (map JObj eps)"
        using rss_tree_Inr_array by blast
      with Inr True g feed assms show ?thesis by (simp add: main_def)
    qed
  qed
qed

subsection \<open>The clock\<close>

text \<open>
  The clock reading is used only as the default of \<open>ep.get("date", ...)\<close>: with a date in
  every record the run is the same whatever the clock says, and an item built from a
  record without a date carries the clock reading as its \<open>pubDate\<close>.
\<close>

lemma records_of_array: "records_of (Content (JArr (map JObj eps))) = eps"
  by (induction eps) (simp_all add: records_of_def)

lemma build_item_clock:
  "has_field ''date'' ep \<Longrightarrow> build_item (w\<lparr>utcnow := c\<rparr>) k fp ep = build_item w k fp ep"
  by (auto simp: build_item_def generate_guid_def get_file_size_def get_default_def has_field_def
      split: sum.splits)

lemma loop_clock:
  "\<forall>ep\<in>set eps. has_field ''date'' ep \<Longrightarrow>
     episodes_loop (w\<lparr>utcnow := c\<rparr>) eps k items = episodes_loop w eps k items"
  by (induction eps arbitrary: k items) (simp_all add: build_item_clock split: sum.splits)

lemma rss_tree_clock:
  assumes "\<forall>ep\<in>set (records_of (Content v)). has_field ''date'' ep"
  shows "rss_tree (w\<lparr>utcnow := c\<rparr>) v = rss_tree w v"
proof (cases "py_iter v")
  case (Inl e)
  then show ?thesis by (simp add: rss_tree_def)
next
  case (Inr vs)
  show ?thesis
  proof (cases "keyed vs")
    case (Inl e)
    with Inr show ?thesis by (simp add: rss_tree_def)
  next
    case eps: (Inr eps)
    then have vs: "vs = map JObj eps" by (rule keyed_Inr)
    have "\<forall>ep\<in>set eps. has_field ''date'' ep"
    proof (cases v)
      case (JArr xs)
      with Inr vs assms show ?thesis by (simp add: records_of_array)
    next
      case (JStr s)
      with Inr eps have "keyed (map (\<lambda>c. JStr [c]) s) = Inr eps" by simp
      then have "s = []" by (rule keyed_non_objects) simp
      with JStr Inr eps show ?thesis by auto
    next
      case (JObj kvs)
      with Inr eps have "keyed (map (\<lambda>kv. JStr (fst kv)) kvs) = Inr eps" by simp
      then have "kvs = []" by (rule keyed_non_objects) simp
      with JObj Inr eps show ?thesis by auto
    qed (use Inr in simp_all)
    then have "\<forall>ep\<in>set (sorted_reverse date_key eps). has_field ''date'' ep"
      by (simp add: set_sorted_reverse)
    then show ?thesis
      using Inr eps by (simp add: rss_tree_def loop_clock)
  qed
qed

lemma main_clock:
  assumes "\<forall>ep\<in>set (records_of (episodes_meta w)). has_field ''date'' ep"
  shows "main (w\<lparr>utcnow := c\<rparr>) = main w"
proof (cases "episodes_meta w")
  case (Content v)
  with assms have "rss_tree (w\<lparr>utcnow := c\<rparr>) v = rss_tree w v"
    by (simp add: rss_tree_clock)
  with Content show ?thesis
    by (simp add: main_def load_episodes_def generate_rss_def)
qed (simp_all add: main_def load_episodes_def)

lemma item_at_pubdate_clock:
  "map_of ep ''date'' = None \<Longrightarrow> item_at w k ep = Inr it \<Longrightarrow>
     child_text ''pubDate'' it = Some (utcnow w k)"
  by (auto simp: item_at_def build_item_def get_default_def child_text_def leaf_def
      split: sum.splits option.splits)

lemma sample_main_written:
  assumes "eps \<noteq> []"
    and "\<forall>ep\<in>set eps. loop_ready (sample_world (Content (JArr (map JObj eps))) files) ep"
  shows "raised (main (sample_world (Content (JArr (map JObj eps))) files)) = None
       \<and> map fst (written (main (sample_world (Content (JArr (map JObj eps))) files))) = [''feed.xml'']"
proof -
  let ?w = "sample_world (Content (JArr (map JObj eps))) files"
  from rss_tree_ok [OF assms(2)] obtain out t where
    "rss_tree ?w (JArr (map JObj eps)) = (out, Inr t)" by blast
  then have "generate_rss ?w (JArr (map JObj eps)) = (out, toprettyxml ?w t)"
    by (rule generate_rss_of_tree)
  moreover have "toprettyxml ?w t = Inr (xml_text t)" by (simp add: sample_world_def)
  moreover have "episodes_meta ?w = Content (JArr (map JObj eps))" by (simp add: sample_world_def)
  ultimately show ?thesis using assms(1)
    by (simp add: main_def load_episodes_def)
qed

subsection \<open>Failing records\<close>

lemma not_ready_iff:
  "\<not> loop_ready w ep \<longleftrightarrow>
     \<not> has_field ''filename'' ep \<or> (file_exists w ep \<and> \<not> has_field ''title'' ep)"
  by (auto simp: loop_ready_def)

lemma draft_file_exists:
  "file_exists (sample_world m draft_file) ep_draft"
  "\<not> file_exists (sample_world m draft_file) ep_lost"
  by (simp_all add: ep_draft_def ep_lost_def file_exists_def filepath_def getitem_def
      path_join_def EPISODES_DIR_def sample_world_def draft_file_def)

subsection \<open>Fields of a skipped record\<close>

text \<open>
  Changing records without changing their filename or date, and without touching the
  records whose file exists, changes neither the order of the visit nor what the loop
  does.
\<close>

lemma insort_key_map_same_key:
  assumes "f (g x) = f x" and "\<forall>y\<in>set ys. f (g y) = f y"
  shows "insort_key f (g x) (map g ys) = map g (insort_key f x ys)"
  using assms by (induction ys) simp_all

lemma sort_key_map_same_key:
  assumes "\<forall>x\<in>set xs. f (g x) = f x"
  shows "sort_key f (map g xs) = map g (sort_key f xs)"
  using assms by (induction xs) (simp_all add: insort_key_map_same_key)

lemma visit_order_map_same_date:
  assumes "\<forall>x\<in>set eps. map_of (g x) ''date'' = map_of x ''date''"
  shows "visit_order (map g eps) = map g (visit_order eps)"
proof -
  from assms have "\<forall>x\<in>set (rev eps). date_key (g x) = date_key x"
    by (simp add: date_key_def get_default_def)
  then have "sort_key date_key (map g (rev eps)) = map g (sort_key date_key (rev eps))"
    by (rule sort_key_map_same_key)
  then show ?thesis
    by (simp add: visit_order_def sorted_reverse_def rev_map)
qed

lemma loop_map_skipped:
  assumes "\<forall>x\<in>set xs. map_of (g x) ''filename'' = map_of x ''filename''
             \<and> (file_exists w x \<longrightarrow> g x = x)"
  shows "episodes_loop w (map g xs) k items = episodes_loop w xs k items"
  using assms
proof (induction xs arbitrary: k items)
  case Nil
  then show ?case by simp
next
  case (Cons x xs)
  then have same: "filepath (g x) = filepath x" and keep: "file_exists w x \<Longrightarrow> g x = x"
    and rest: "\<And>k items. episodes_loop w (map g xs) k items = episodes_loop w xs k items"
    by (simp_all add: filepath_def getitem_def)
  show ?case
  proof (cases "filepath x")
    case (Inl e)
    with same show ?thesis by simp
  next
    case (Inr fp)
    show ?thesis
    proof (cases "path_exists w fp")
      case True
      with Inr have "g x = x" by (simp add: keep file_exists_def)
      with Inr True rest show ?thesis by (simp split: sum.splits)
    next
      case False
      with Inr same rest show ?thesis by simp
    qed
  qed
qed

lemma rss_tree_map_skipped:
  assumes "\<forall>x\<in>set eps. map_of (g x) ''filename'' = map_of x ''filename''
             \<and> map_of (g x) ''date'' = map_of x ''date''
             \<and> (file_exists w x \<longrightarrow> g x = x)"
  shows "rss_tree w (JArr (map JObj (map g eps))) = rss_tree w (JArr (map JObj eps))"
proof -
  from assms have "visit_order (map g eps) = map g (visit_order eps)"
    by (simp add: visit_order_map_same_date)
  moreover from assms have "\<forall>x\<in>set (visit_order eps).
      map_of (g x) ''filename'' = map_of x ''filename'' \<and> (file_exists w x \<longrightarrow> g x = x)"
    by (simp add: visit_order_def set_sorted_reverse)
  then have "episodes_loop w (map g (visit_order eps)) 0 [] = episodes_loop w (visit_order eps) 0 []"
    by (rule loop_map_skipped)
  ultimately show ?thesis
    using keyed_map_JObj [of "map g eps"] keyed_map_JObj [of eps]
    by (simp add: rss_tree_def visit_order_def)
qed

subsection \<open>The identifier\<close>

text \<open>
  \<open>generate_guid\<close> reads the filename and nothing else, and returns the digest of its
  bytes. Two records get different identifiers exactly when the digest tells their
  filenames apart; no digest of fixed length does so for all filenames.
\<close>

lemma generate_guid_filename_only:
  "map_of ep1 ''filename'' = map_of ep2 ''filename'' \<Longrightarrow> generate_guid w ep1 = generate_guid w ep2"
  by (simp add: generate_guid_def getitem_def)

lemma generate_guid_digest:
  "map_of ep ''filename'' = Some fn \<Longrightarrow> generate_guid w ep = Inr (md5_hexdigest w fn)"
  by (simp add: generate_guid_def getitem_def)

lemma generate_guid_no_filename:
  "map_of ep ''filename'' = None \<Longrightarrow> generate_guid w ep = Inl (KeyError ''filename'')"
  by (simp add: generate_guid_def getitem_def)

lemma generate_guid_differ_iff:
  assumes "map_of ep1 ''filename'' = Some fn1" and "map_of ep2 ''filename'' = Some fn2"
  shows "generate_guid w ep1 \<noteq> generate_guid w ep2 \<longleftrightarrow> md5_hexdigest w fn1 \<noteq> md5_hexdigest w fn2"
  using assms by (simp add: generate_guid_digest)

lemma fixed_length_digest_collides:
  assumes "\<forall>b. length (md5_hexdigest w b) = 32"
  shows "\<exists>fn1 fn2. fn1 \<noteq> fn2 \<and> md5_hexdigest w fn1 = md5_hexdigest w fn2"
proof (rule ccontr)
  assume "\<not> ?thesis"
  then have "inj (md5_hexdigest w)" by (auto simp: inj_on_def)
  moreover have "range (md5_hexdigest w) \<subseteq> {xs. set xs \<subseteq> UNIV \<and> length xs = 32}"
    using assms by auto
  then have "finite (range (md5_hexdigest w))"
    by (rule finite_subset) (rule finite_lists_length_eq, simp)
  ultimately have "finite (UNIV :: string set)" by (rule finite_imageD [rotated])
  then show False by (simp add: infinite_UNIV_listI)
qed

subsection \<open>Small checks of the primitives\<close>

lemma str_nat_samples:
  "str_nat 0 = ''0''" "str_nat 7 = ''7''" "str_nat 10 = ''10''" "str_nat 1048576 = ''1048576''"
  by (simp_all add: str_nat.simps)

lemma path_join_samples:
  "path_join ''episodes'' ''ep1.mp3'' = ''episodes/ep1.mp3''"
  "path_join ''episodes'' ''/srv/ep1.mp3'' = ''/srv/ep1.mp3''"
  "path_join ''episodes'' '''' = ''episodes/''"
  by (simp_all add: path_join_def)

lemma sorted_reverse_stable_sample:
  "sorted_reverse fst [(''b'', 1::nat), (''a'', 2), (''b'', 3), (''c'', 4)]
     = [(''c'', 4), (''b'', 1), (''b'', 3), (''a'', 2)]"
  by (simp add: sorted_reverse_def)

lemma invalid_json_fails:
  "episodes_meta w = Invalid \<Longrightarrow>
     main w = \<lparr>stdout = [], written = [], raised = Some JSONDecodeError\<rparr>"
  by (simp add: main_def load_episodes_def)

section \<open>The claims\<close>

subsection \<open>No episodes\<close>

text \<open>
  Claim C6. If \<open>episodes.json\<close> is absent or holds an empty array, \<open>load_episodes\<close> returns
  the empty list (a missing file is no error), and \<open>main\<close> prints
  \<open>No episodes found in episodes.json!\<close>, writes no file and returns normally.
\<close>

theorem no_episodes_no_output:
  assumes "episodes_meta w = Absent \<or> episodes_meta w = Content (JArr [])"
  shows "load_episodes w = Inr (JArr [])
       \<and> main w = \<lparr>stdout = [''No episodes found in episodes.json!''], written = [], raised = None\<rparr>"
  using assms by (auto simp: load_episodes_def main_def)

theorem no_episodes_no_output_witness:
  "main (sample_world Absent [''feed.xml'']) =
     \<lparr>stdout = [''No episodes found in episodes.json!''], written = [], raised = None\<rparr>
   \<and> main (sample_world (Content (JArr [])) [''feed.xml'']) =
     \<lparr>stdout = [''No episodes found in episodes.json!''], written = [], raised = None\<rparr>"
  using no_episodes_no_output [of "sample_world Absent [''feed.xml'']"]
    no_episodes_no_output [of "sample_world (Content (JArr [])) [''feed.xml'']"]
  by (simp add: sample_world_def)

subsection \<open>The order of the items\<close>

text \<open>
  Claim C1, as amended. The records are visited in descending order of the date field
  compared as a string, a record without a date counting as the empty string. Given, in
  any order, a record dated \<open>Wed, 01 Jan 2025 00:00:00 +0000\<close>, one dated
  \<open>Thu, 02 Jan 2025 00:00:00 +0000\<close> and one without a date, all well-formed and with
  their files on disk, the items of the feed are: the record of 1 January first (\<open>W\<close>
  is above \<open>T\<close>), the record of 2 January second, the undated record last.
\<close>

theorem render_order_three_dates:
  assumes "map_of r1 ''date'' = Some ''Wed, 01 Jan 2025 00:00:00 +0000''"
    and "map_of r2 ''date'' = Some ''Thu, 02 Jan 2025 00:00:00 +0000''"
    and "map_of r3 ''date'' = None"
    and "mset eps = {#r1, r2, r3#}"
    and wf: "\<forall>ep\<in>set eps. well_formed ep \<and> file_exists w ep"
  shows "visit_order eps = [r1, r2, r3]
       \<and> (\<exists>t. rss_tree w (JArr (map JObj eps)) = ([], Inr t)
              \<and> map Inr (feed_items t) = [item_at w 0 r1, item_at w 1 r2, item_at w 2 r3])
       \<and> date_key r3 = ''''
       \<and> sorted (rev (map date_key (visit_order eps)))"
proof -
  have order: "visit_order eps = [r1, r2, r3]"
    using assms(1-4) by (rule visit_order_three)
  from wf have ready: "\<forall>ep\<in>set eps. loop_ready w ep"
    by (simp add: well_formed_loop_ready)
  from wf have "\<forall>ep\<in>set (visit_order eps). file_exists w ep"
    by (simp add: visit_order_def set_sorted_reverse)
  then have "filter (\<lambda>ep. \<not> file_exists w ep) (visit_order eps) = []"
    and "filter (file_exists w) (visit_order eps) = visit_order eps"
    by (simp_all add: filter_empty_conv)
  with rss_tree_ok [OF ready] order
  have "\<exists>t. rss_tree w (JArr (map JObj eps)) = ([], Inr t)
      \<and> map Inr (feed_items t) = [item_at w 0 r1, item_at w 1 r2, item_at w 2 r3]"
    by (simp add: enumerate_eq_zip upt_rec numeral_2_eq_2)
  moreover from assms(3) have "date_key r3 = ''''"
    by (simp add: date_key_def get_default_def)
  ultimately show ?thesis
    using order visit_order_descending [of eps] by simp
qed

theorem render_order_three_dates_witness:
  "visit_order [ep_undated, ep_jan2, ep_jan1] = [ep_jan1, ep_jan2, ep_undated]
   \<and> (\<exists>t. rss_tree (sample_world Absent three_files) (JArr (map JObj [ep_undated, ep_jan2, ep_jan1]))
            = ([], Inr t)
        \<and> map Inr (feed_items t) =
            [item_at (sample_world Absent three_files) 0 ep_jan1,
             item_at (sample_world Absent three_files) 1 ep_jan2,
             item_at (sample_world Absent three_files) 2 ep_undated])
   \<and> date_key ep_undated = ''''
   \<and> sorted (rev (map date_key (visit_order [ep_undated, ep_jan2, ep_jan1])))"
proof -
  have perm: "mset [ep_undated, ep_jan2, ep_jan1] = {#ep_jan1, ep_jan2, ep_undated#}"
    by (simp add: add_mset_commute)
  have ok: "\<forall>ep\<in>set [ep_undated, ep_jan2, ep_jan1].
      well_formed ep \<and> file_exists (sample_world Absent three_files) ep"
    by (simp add: sample_files_exist sample_well_formed)
  show ?thesis
    by (rule render_order_three_dates [OF sample_dates perm ok])
qed

text \<open>
  The claim as stated puts the record of 2 January first. On the three sample records,
  given in the order of the claim, the titles of the items come out as \<open>New Year\<close>
  (1 January), \<open>Day Two\<close> (2 January), \<open>Pilot\<close> (undated).
\<close>

theorem render_order_newest_first_counterexample:
  "map (child_text ''title'')
     (feed_items (projr (snd (rss_tree (sample_world Absent three_files)
        (JArr (map JObj [ep_jan1, ep_jan2, ep_undated]))))))
   = [Some ''New Year'', Some ''Day Two'', Some ''Pilot'']
   \<and> [Some ''New Year'', Some ''Day Two'', Some ''Pilot'']
     \<noteq> [Some ''Day Two'', Some ''New Year'', Some ''Pilot'']"
proof -
  let ?w = "sample_world Absent three_files"
  let ?eps = "[ep_jan1, ep_jan2, ep_undated]"
  have order: "visit_order ?eps = ?eps"
    by (rule visit_order_three [OF sample_dates]) simp
  have "\<forall>ep\<in>set ?eps. loop_ready ?w ep"
    by (simp add: well_formed_loop_ready sample_well_formed)
  from rss_tree_ok [OF this] obtain t where
    t: "snd (rss_tree ?w (JArr (map JObj ?eps))) = Inr t"
    and items: "map Inr (feed_items t) =
       map (\<lambda>(i, ep). item_at ?w i ep) (enumerate 0 (filter (file_exists ?w) (visit_order ?eps)))"
    by auto
  from items obtain a b c where abc: "feed_items t = [a, b, c]"
    and "item_at ?w 0 ep_jan1 = Inr a" "item_at ?w 1 ep_jan2 = Inr b"
      "item_at ?w 2 ep_undated = Inr c"
    by (auto simp: order sample_files_exist enumerate_eq_zip upt_rec numeral_2_eq_2
        map_eq_Cons_conv)
  then have "child_text ''title'' a = Some ''New Year''"
    "child_text ''title'' b = Some ''Day Two''" "child_text ''title'' c = Some ''Pilot''"
    by (simp_all add: item_at_title sample_titles)
  with t abc show ?thesis by simp
qed

subsection \<open>Items and files\<close>

text \<open>
  Claim C2. For every list of well-formed records (each has a filename and a title),
  \<open>generate_rss\<close> builds a document and hands it to the serialiser; the number of \<open>item\<close>
  elements of the document is the number of records whose file exists; the items are,
  in order, the items built from exactly those records, which are records of the input;
  a record whose file is missing is left out and raises nothing.
\<close>

theorem item_count_equals_existing_files:
  assumes "\<forall>ep\<in>set eps. well_formed ep"
  shows "\<exists>out t. rss_tree w (JArr (map JObj eps)) = (out, Inr t)
       \<and> generate_rss w (JArr (map JObj eps)) = (out, toprettyxml w t)
       \<and> length (feed_items t) = length (filter (file_exists w) eps)
       \<and> map Inr (feed_items t) =
           map (\<lambda>(i, ep). item_at w i ep) (enumerate 0 (filter (file_exists w) (visit_order eps)))
       \<and> mset (visit_order eps) = mset eps"
proof -
  from assms have "\<forall>ep\<in>set eps. loop_ready w ep"
    by (simp add: well_formed_loop_ready)
  from rss_tree_ok [OF this] obtain out t where
    tree: "rss_tree w (JArr (map JObj eps)) = (out, Inr t)"
    and items: "map Inr (feed_items t) =
      map (\<lambda>(i, ep). item_at w i ep) (enumerate 0 (filter (file_exists w) (visit_order eps)))"
    by blast
  from items have "length (map Inr (feed_items t) :: (pyerr + xml) list) =
      length (filter (file_exists w) (visit_order eps))"
    by simp
  then have "length (feed_items t) = length (filter (file_exists w) eps)"
    by (simp add: length_filter_visit_order)
  with tree items show ?thesis
    by (simp add: generate_rss_of_tree mset_visit_order)
qed

theorem item_count_equals_existing_files_witness:
  "\<exists>out t. rss_tree (sample_world Absent one_file) (JArr (map JObj [ep_jan1, ep_jan2])) = (out, Inr t)
     \<and> generate_rss (sample_world Absent one_file) (JArr (map JObj [ep_jan1, ep_jan2]))
         = (out, toprettyxml (sample_world Absent one_file) t)
     \<and> length (feed_items t) = 1
     \<and> length (filter (file_exists (sample_world Absent one_file)) [ep_jan1, ep_jan2]) = 1"
proof -
  have wf: "\<forall>ep\<in>set [ep_jan1, ep_jan2]. well_formed ep"
    by (simp add: sample_well_formed)
  from item_count_equals_existing_files [OF wf, of "sample_world Absent one_file"]
  show ?thesis by (auto simp: one_file_exists)
qed

subsection \<open>Missing files\<close>

text \<open>
  Claim C7. A record whose audio file does not exist costs the loop one line and nothing
  else: at such a record the loop prints \<open>WARNING: <path> not found, skipping\<close> with the
  path of the missing file, adds no item, raises nothing and goes on with the remaining
  records, whatever they are. So in a run that no record stops (each record has a
  filename, and a title if its file exists), the lines printed are exactly one warning
  for each record whose file does not exist, in the order the records are visited, and
  the items of the document are built from the other records.
\<close>

theorem missing_file_warned_and_skipped:
  "(has_field ''filename'' ep \<and> \<not> file_exists w ep \<longrightarrow>
      episodes_loop w (ep # rest) k items =
        (skip_warning ep # fst (episodes_loop w rest k items),
         snd (episodes_loop w rest k items)))
   \<and> ((\<forall>ep\<in>set eps. loop_ready w ep) \<longrightarrow>
      (\<exists>t. generate_rss w (JArr (map JObj eps)) =
           (map skip_warning (filter (\<lambda>ep. \<not> file_exists w ep) (visit_order eps)),
            toprettyxml w t)
       \<and> rss_tree w (JArr (map JObj eps)) =
           (map skip_warning (filter (\<lambda>ep. \<not> file_exists w ep) (visit_order eps)), Inr t)
       \<and> map Inr (feed_items t) =
           map (\<lambda>(i, ep). item_at w i ep) (enumerate 0 (filter (file_exists w) (visit_order eps)))))
   \<and> (\<forall>fn. map_of ep ''filename'' = Some fn \<longrightarrow>
        skip_warning ep = ''WARNING: '' @ path_join ''episodes'' fn @ '' not found, skipping'')"
proof (intro conjI impI allI)
  assume "has_field ''filename'' ep \<and> \<not> file_exists w ep"
  then have "has_field ''filename'' ep" and "\<not> file_exists w ep" by simp_all
  then show "episodes_loop w (ep # rest) k items =
        (skip_warning ep # fst (episodes_loop w rest k items),
         snd (episodes_loop w rest k items))"
    by (rule loop_skips_missing)
next
  assume "\<forall>ep\<in>set eps. loop_ready w ep"
  from rss_tree_ok [OF this]
  show "\<exists>t. generate_rss w (JArr (map JObj eps)) =
           (map skip_warning (filter (\<lambda>ep. \<not> file_exists w ep) (visit_order eps)),
            toprettyxml w t)
       \<and> rss_tree w (JArr (map JObj eps)) =
           (map skip_warning (filter (\<lambda>ep. \<not> file_exists w ep) (visit_order eps)), Inr t)
       \<and> map Inr (feed_items t) =
           map (\<lambda>(i, ep). item_at w i ep) (enumerate 0 (filter (file_exists w) (visit_order eps)))"
    by (auto simp: generate_rss_of_tree)
next
  fix fn assume "map_of ep ''filename'' = Some fn"
  then show "skip_warning ep = ''WARNING: '' @ path_join ''episodes'' fn @ '' not found, skipping''"
    by (rule skip_warning_format)
qed

theorem missing_file_warned_and_skipped_witness:
  "episodes_loop (sample_world Absent one_file) [ep_lost, ep_nameless] 0 []
     = ([''WARNING: episodes/lost.mp3 not found, skipping''], Inl (KeyError ''filename''))
   \<and> (\<exists>t. generate_rss (sample_world Absent one_file) (JArr (map JObj [ep_lost, ep_jan2, ep_jan1])) =
          ([''WARNING: episodes/jan1.mp3 not found, skipping'',
            ''WARNING: episodes/lost.mp3 not found, skipping''],
           toprettyxml (sample_world Absent one_file) t)
     \<and> map Inr (feed_items t) = [item_at (sample_world Absent one_file) 0 ep_jan2])"
proof -
  let ?w = "sample_world Absent one_file"
  let ?eps = "[ep_lost, ep_jan2, ep_jan1]"
  note inst = missing_file_warned_and_skipped [of ep_lost ?w "[ep_nameless]" 0 "[]" ?eps]
  have ready: "\<forall>ep\<in>set ?eps. loop_ready ?w ep"
    using sample_well_formed [unfolded well_formed_def]
    by (simp add: loop_ready_def one_file_exists sample_untitled)
  have "mset ?eps = {#ep_jan1, ep_jan2, ep_lost#}"
    by (simp add: add_mset_commute)
  with sample_dates(1,2) sample_untitled(5) have order: "visit_order ?eps = [ep_jan1, ep_jan2, ep_lost]"
    by (rule visit_order_three)
  have rest: "episodes_loop ?w [ep_nameless] 0 [] = ([], Inl (KeyError ''filename''))"
    by (simp add: filepath_def getitem_def ep_nameless_def)
  have "has_field ''filename'' ep_lost \<and> \<not> file_exists ?w ep_lost"
    by (simp add: sample_untitled one_file_exists)
  from inst [THEN conjunct1, THEN mp, OF this]
  have "episodes_loop ?w [ep_lost, ep_nameless] 0 []
      = ([''WARNING: episodes/lost.mp3 not found, skipping''], Inl (KeyError ''filename''))"
    by (simp only: rest sample_warnings fst_conv snd_conv)
  moreover from inst [THEN conjunct2, THEN conjunct1, THEN mp, OF ready] have "\<exists>t. generate_rss ?w (JArr (map JObj ?eps)) =
          ([''WARNING: episodes/jan1.mp3 not found, skipping'',
            ''WARNING: episodes/lost.mp3 not found, skipping''],
           toprettyxml ?w t)
     \<and> map Inr (feed_items t) = [item_at ?w 0 ep_jan2]"
    by (auto simp: order one_file_exists sample_warnings enumerate_eq_zip)
  ultimately show ?thesis by simp
qed

subsection \<open>The duration element\<close>

text \<open>
  Claim C8. The item built for a record has an \<open>itunes:duration\<close> element only when the
  record has a duration field that is not empty, and then exactly one, holding the
  field; for a record without the field, or with an empty one, the item has no such
  element anywhere.
\<close>

theorem duration_element_only_when_nonempty:
  assumes "item_at w k ep = Inr it"
  shows "filter (\<lambda>c. tag c = ''itunes:duration'') (elements it) =
           (case map_of ep ''duration'' of
              None \<Rightarrow> []
            | Some d \<Rightarrow> if d = [] then [] else [leaf ''itunes:duration'' d])"
  using assms
  by (auto simp: item_at_def build_item_def leaf_def split: sum.splits option.splits)

theorem duration_element_only_when_nonempty_witness:
  "(\<exists>it. item_at (sample_world Absent three_files) 0 ep_jan1 = Inr it
        \<and> filter (\<lambda>c. tag c = ''itunes:duration'') (elements it) = [])
   \<and> (\<exists>it. item_at (sample_world Absent three_files) 0 ep_silent = Inr it
        \<and> filter (\<lambda>c. tag c = ''itunes:duration'') (elements it) = [])
   \<and> (\<exists>it. item_at (sample_world Absent three_files) 0 ep_jan2 = Inr it
        \<and> filter (\<lambda>c. tag c = ''itunes:duration'') (elements it) = [leaf ''itunes:duration'' ''12:34''])"
proof -
  let ?w = "sample_world Absent three_files"
  have built: "\<exists>it. item_at ?w 0 ep = Inr it"
    if "map_of ep ''title'' = Some t" "map_of ep ''filename'' = Some fn" for ep t fn
    using that build_item_Inr [OF that] by (simp add: item_at_def filepath_def getitem_def)
  have "\<exists>it. item_at ?w 0 ep_jan1 = Inr it" "\<exists>it. item_at ?w 0 ep_silent = Inr it"
    "\<exists>it. item_at ?w 0 ep_jan2 = Inr it"
    by (rule built; simp add: ep_jan1_def ep_silent_def ep_jan2_def)+
  then obtain a b c where abc: "item_at ?w 0 ep_jan1 = Inr a" "item_at ?w 0 ep_silent = Inr b"
    "item_at ?w 0 ep_jan2 = Inr c"
    by blast
  have "map_of ep_jan1 ''duration'' = None" "map_of ep_silent ''duration'' = Some ''''"
    "map_of ep_jan2 ''duration'' = Some ''12:34''"
    by (simp_all add: ep_jan1_def ep_silent_def ep_jan2_def)
  with duration_element_only_when_nonempty [OF abc(1)]
    duration_element_only_when_nonempty [OF abc(2)]
    duration_element_only_when_nonempty [OF abc(3)] abc
  show ?thesis by simp
qed

subsection \<open>Running twice\<close>

text \<open>
  Claim C4. Two runs of \<open>main\<close> in worlds that agree on the content of \<open>episodes.json\<close>,
  on which files exist and on their sizes, and that may differ in what the clock says,
  leave the same behind (the same bytes written to \<open>feed.xml\<close>, the same lines printed,
  the same outcome), provided every record of the metadata file has a date field. So
  the output can depend on the clock only when some record has no date.
\<close>

theorem rerun_byte_identical:
  assumes "episodes_meta w2 = episodes_meta w1"
    and "path_exists w2 = path_exists w1"
    and "getsize w2 = getsize w1"
    and "md5_hexdigest w2 = md5_hexdigest w1"
    and "toprettyxml w2 = toprettyxml w1"
    and dated: "\<forall>ep\<in>set (records_of (episodes_meta w1)). has_field ''date'' ep"
  shows "main w2 = main w1"
proof -
  from assms(1-5) have "w2 = w1\<lparr>utcnow := utcnow w2\<rparr>"
    by (intro world.equality) simp_all
  with main_clock [OF dated, of "utcnow w2"] show ?thesis by simp
qed

theorem rerun_byte_identical_witness:
  "main (sample_world (Content (JArr (map JObj [ep_jan1, ep_jan2]))) three_files
          \<lparr>utcnow := (\<lambda>k. ''Wed, 04 Nov 2026 10:30:00 +0000'')\<rparr>)
   = main (sample_world (Content (JArr (map JObj [ep_jan1, ep_jan2]))) three_files)"
proof -
  let ?w = "sample_world (Content (JArr (map JObj [ep_jan1, ep_jan2]))) three_files"
  have "records_of (episodes_meta ?w) = [ep_jan1, ep_jan2]"
    using records_of_array [of "[ep_jan1, ep_jan2]"] by (simp add: sample_world_def)
  then have dated: "\<forall>ep\<in>set (records_of (episodes_meta ?w)). has_field ''date'' ep"
    by (simp add: has_field_def sample_dates)
  show ?thesis
    by (rule rerun_byte_identical [OF _ _ _ _ _ dated]) simp_all
qed

subsection \<open>The summary line\<close>

text \<open>
  Claim C9. Whenever \<open>main\<close> writes the feed and returns normally, the metadata file
  holds an array of records, and the number printed in
  \<open>Generated feed.xml with N episodes\<close> is the length of that array. The document
  written has one item for each record whose file exists, so \<open>N\<close> is the number of items
  plus the number of records skipped for a missing file, and exceeds the number of items
  as soon as one record is skipped.
\<close>

theorem summary_counts_loaded_records:
  assumes "raised (main w) = None" and "written (main w) \<noteq> []"
  shows "\<exists>eps t feed. episodes_meta w = Content (JArr (map JObj eps))
       \<and> rss_tree w (JArr (map JObj eps)) =
           (map skip_warning (filter (\<lambda>ep. \<not> file_exists w ep) (visit_order eps)), Inr t)
       \<and> toprettyxml w t = Inr feed
       \<and> written (main w) = [(''feed.xml'', feed)]
       \<and> stdout (main w) =
           map skip_warning (filter (\<lambda>ep. \<not> file_exists w ep) (visit_order eps)) @
           [''Generated feed.xml with '' @ str_nat (length eps) @ '' episodes'',
            ''Feed URL: https://jackknifeai.github.io/truth-report-podcast/feed.xml'']
       \<and> length (feed_items t) + length (filter (\<lambda>ep. \<not> file_exists w ep) eps) = length eps"
proof -
  from main_success [OF assms] obtain v out feed n where
    meta: "episodes_meta w = Content v" and v: "truthy v"
    and gen: "generate_rss w v = (out, Inr feed)" and n: "py_len v = Inr n"
    and run: "main w = \<lparr>stdout = out @
         [''Generated feed.xml with '' @ str_nat n @ '' episodes'',
          ''Feed URL: '' @ base_url PODCAST @ ''/feed.xml''],
        written = [(''feed.xml'', feed)], raised = None\<rparr>"
    by blast
  from gen obtain t where tree: "rss_tree w v = (out, Inr t)" and feed: "toprettyxml w t = Inr feed"
    by (auto simp: generate_rss_def split: sum.splits prod.splits)
  from tree v obtain eps where arr: "v = JArr (map JObj eps)"
    using rss_tree_Inr_array by blast
  from tree arr have ready: "\<forall>ep\<in>set eps. loop_ready w ep"
    using rss_tree_Inr_ready by blast
  from rss_tree_ok [OF ready] tree arr have
    out: "out = map skip_warning (filter (\<lambda>ep. \<not> file_exists w ep) (visit_order eps))"
    and items: "map Inr (feed_items t) =
      map (\<lambda>(i, ep). item_at w i ep) (enumerate 0 (filter (file_exists w) (visit_order eps)))"
    by auto
  from items have "length (map Inr (feed_items t) :: (pyerr + xml) list) =
      length (filter (file_exists w) (visit_order eps))"
    by simp
  then have "length (feed_items t) = length (filter (file_exists w) eps)"
    by (simp add: length_filter_visit_order)
  then have count: "length (feed_items t) + length (filter (\<lambda>ep. \<not> file_exists w ep) eps) = length eps"
    by (simp add: sum_length_filter_compl)
  from n arr have "n = length eps" by simp
  with run out have printed: "stdout (main w) =
      map skip_warning (filter (\<lambda>ep. \<not> file_exists w ep) (visit_order eps)) @
      [''Generated feed.xml with '' @ str_nat (length eps) @ '' episodes'',
       ''Feed URL: https://jackknifeai.github.io/truth-report-podcast/feed.xml'']"
    by (simp add: PODCAST_def)
  from run have wrote: "written (main w) = [(''feed.xml'', feed)]" by simp
  from meta arr have meta': "episodes_meta w = Content (JArr (map JObj eps))" by simp
  from tree arr out have tree': "rss_tree w (JArr (map JObj eps)) =
      (map skip_warning (filter (\<lambda>ep. \<not> file_exists w ep) (visit_order eps)), Inr t)"
    by simp
  from meta' tree' feed wrote printed count show ?thesis by blast
qed

theorem summary_counts_loaded_records_witness:
  "\<exists>t. stdout (main (sample_world (Content (JArr (map JObj [ep_jan1, ep_jan2]))) one_file)) =
          [''WARNING: episodes/jan1.mp3 not found, skipping'',
           ''Generated feed.xml with 2 episodes'',
           ''Feed URL: https://jackknifeai.github.io/truth-report-podcast/feed.xml'']
      \<and> written (main (sample_world (Content (JArr (map JObj [ep_jan1, ep_jan2]))) one_file)) =
          [(''feed.xml'', xml_text t)]
      \<and> length (feed_items t) = 1"
proof -
  let ?w = "sample_world (Content (JArr (map JObj [ep_jan1, ep_jan2]))) one_file"
  have "\<forall>ep\<in>set [ep_jan1, ep_jan2]. loop_ready ?w ep"
    by (simp add: well_formed_loop_ready sample_well_formed)
  then have ok: "raised (main ?w) = None" "written (main ?w) \<noteq> []"
    using sample_main_written [of "[ep_jan1, ep_jan2]" one_file] by auto
  from summary_counts_loaded_records [OF ok] obtain eps t feed where
    eps: "episodes_meta ?w = Content (JArr (map JObj eps))"
    and feed: "toprettyxml ?w t = Inr feed" "written (main ?w) = [(''feed.xml'', feed)]"
    and out: "stdout (main ?w) =
           map skip_warning (filter (\<lambda>ep. \<not> file_exists ?w ep) (visit_order eps)) @
           [''Generated feed.xml with '' @ str_nat (length eps) @ '' episodes'',
            ''Feed URL: https://jackknifeai.github.io/truth-report-podcast/feed.xml'']"
    and count: "length (feed_items t) + length (filter (\<lambda>ep. \<not> file_exists ?w ep) eps) = length eps"
    by blast
  from eps have e: "eps = [ep_jan1, ep_jan2]"
    by (auto simp: sample_world_def Cons_eq_map_conv)
  have order: "visit_order [ep_jan1, ep_jan2] = [ep_jan1, ep_jan2]"
    by (simp add: visit_order_def sorted_reverse_def date_key_def get_default_def sample_dates)
  from feed have "feed = xml_text t" by (simp add: sample_world_def)
  with feed out count show ?thesis
    by (intro exI [of _ t]) (simp add: e order one_file_exists sample_warnings str_nat.simps)
qed

subsection \<open>Malformed input\<close>

text \<open>
  Claim C5, as amended. If the loaded value is non-empty and is not an array of
  mappings, or is an array of mappings in which some record has no filename, or has no
  title while its audio file exists, then \<open>main\<close> ends with an exception and writes no
  file. In every run that ends with an exception no file has been written: the feed is
  complete before \<open>feed.xml\<close> is opened.
\<close>

theorem malformed_input_writes_nothing:
  assumes "episodes_meta w = Content v" and "truthy v"
    and "(\<nexists>eps. v = JArr (map JObj eps))
       \<or> (\<exists>eps. v = JArr (map JObj eps)
            \<and> (\<exists>ep\<in>set eps. \<not> has_field ''filename'' ep
                   \<or> (file_exists w ep \<and> \<not> has_field ''title'' ep)))"
  shows "(\<exists>e. raised (main w) = Some e) \<and> written (main w) = []
       \<and> (\<forall>w' e. raised (main w') = Some e \<longrightarrow> written (main w') = [])"
proof -
  have "\<exists>out e. rss_tree w v = (out, Inl e)"
    using assms(3)
  proof
    assume "\<nexists>eps. v = JArr (map JObj eps)"
    with assms(2) show ?thesis by (rule rss_tree_not_array)
  next
    assume "\<exists>eps. v = JArr (map JObj eps)
            \<and> (\<exists>ep\<in>set eps. \<not> has_field ''filename'' ep
                   \<or> (file_exists w ep \<and> \<not> has_field ''title'' ep))"
    then obtain eps where v: "v = JArr (map JObj eps)"
      and "\<exists>ep\<in>set eps. \<not> loop_ready w ep"
      by (auto simp: not_ready_iff)
    from rss_tree_fail [OF this(2)] v show ?thesis by blast
  qed
  then obtain out e where "generate_rss w v = (out, Inl e)"
    using generate_rss_of_failure by blast
  with assms(1,2) have "main w = \<lparr>stdout = out, written = [], raised = Some e\<rparr>"
    by (rule main_failure)
  then show ?thesis
    by (simp add: main_raised_nothing_written)
qed

theorem malformed_input_writes_nothing_witness:
  "raised (main (sample_world (Content (JObj ep_jan1)) three_files)) \<noteq> None
   \<and> written (main (sample_world (Content (JObj ep_jan1)) three_files)) = []
   \<and> raised (main (sample_world (Content (JArr (map JObj [ep_jan1, ep_nameless]))) three_files)) \<noteq> None
   \<and> written (main (sample_world (Content (JArr (map JObj [ep_jan1, ep_nameless]))) three_files)) = []
   \<and> raised (main (sample_world (Content (JArr (map JObj [ep_draft]))) draft_file)) \<noteq> None
   \<and> written (main (sample_world (Content (JArr (map JObj [ep_draft]))) draft_file)) = []"
proof -
  let ?w1 = "sample_world (Content (JObj ep_jan1)) three_files"
  let ?w2 = "sample_world (Content (JArr (map JObj [ep_jan1, ep_nameless]))) three_files"
  let ?w3 = "sample_world (Content (JArr (map JObj [ep_draft]))) draft_file"
  have 1: "episodes_meta ?w1 = Content (JObj ep_jan1)" "truthy (JObj ep_jan1)"
    "\<nexists>eps. JObj ep_jan1 = JArr (map JObj eps)"
    by (simp_all add: sample_world_def ep_jan1_def)
  have 2: "episodes_meta ?w2 = Content (JArr (map JObj [ep_jan1, ep_nameless]))"
    "truthy (JArr (map JObj [ep_jan1, ep_nameless]))"
    "\<exists>eps. JArr (map JObj [ep_jan1, ep_nameless]) = JArr (map JObj eps)
       \<and> (\<exists>ep\<in>set eps. \<not> has_field ''filename'' ep
              \<or> (file_exists ?w2 ep \<and> \<not> has_field ''title'' ep))"
    by (simp_all add: sample_world_def, rule exI [of _ "[ep_jan1, ep_nameless]"])
      (simp add: ep_nameless_def has_field_def)
  have 3: "episodes_meta ?w3 = Content (JArr (map JObj [ep_draft]))"
    "truthy (JArr (map JObj [ep_draft]))"
    "\<exists>eps. JArr (map JObj [ep_draft]) = JArr (map JObj eps)
       \<and> (\<exists>ep\<in>set eps. \<not> has_field ''filename'' ep
              \<or> (file_exists ?w3 ep \<and> \<not> has_field ''title'' ep))"
    by (simp_all add: sample_world_def, rule exI [of _ "[ep_draft]"])
      (simp add: sample_untitled draft_file_exists [unfolded sample_world_def])
  from malformed_input_writes_nothing [OF 1(1,2) disjI1 [OF 1(3)]]
    malformed_input_writes_nothing [OF 2(1,2) disjI2 [OF 2(3)]]
    malformed_input_writes_nothing [OF 3(1,2) disjI2 [OF 3(3)]]
  show ?thesis by auto
qed

text \<open>
  The claim as stated has \<open>main\<close> fail for every record without a title. A record
  without a title whose audio file is missing is skipped before its title is read: on the
  one record \<open>ep_lost\<close>, \<open>main\<close> returns normally and writes \<open>feed.xml\<close>.
\<close>

theorem untitled_skipped_record_counterexample:
  "truthy (JArr (map JObj [ep_lost]))
   \<and> \<not> has_field ''title'' ep_lost
   \<and> raised (main (sample_world (Content (JArr (map JObj [ep_lost]))) one_file)) = None
   \<and> map fst (written (main (sample_world (Content (JArr (map JObj [ep_lost]))) one_file)))
       = [''feed.xml'']"
proof -
  have "\<forall>ep\<in>set [ep_lost].
      loop_ready (sample_world (Content (JArr (map JObj [ep_lost]))) one_file) ep"
    by (simp add: loop_ready_def sample_untitled one_file_exists)
  from sample_main_written [OF _ this] show ?thesis
    by (simp add: sample_untitled)
qed

subsection \<open>What is read of a skipped record\<close>

text \<open>
  Claim C10, as amended. A record whose audio file does not exist is skipped on its
  filename alone: changing any of its fields other than filename and date changes
  neither the feed nor the lines printed. For every list in which every record has a
  filename and every record without a title has a missing audio file, the loop raises
  nothing and \<open>generate_rss\<close> returns what the serialiser returns for the document. A
  list with a record without a filename always ends in a \<open>KeyError\<close>, whatever files
  exist.
\<close>

theorem skipped_record_needs_no_title:
  "((\<forall>x\<in>set eps. map_of (g x) ''filename'' = map_of x ''filename''
        \<and> map_of (g x) ''date'' = map_of x ''date''
        \<and> (file_exists w x \<longrightarrow> g x = x))
      \<longrightarrow> generate_rss w (JArr (map JObj (map g eps))) = generate_rss w (JArr (map JObj eps)))
   \<and> ((\<forall>ep\<in>set eps. has_field ''filename'' ep
          \<and> (\<not> has_field ''title'' ep \<longrightarrow> \<not> file_exists w ep))
      \<longrightarrow> (\<exists>out t. rss_tree w (JArr (map JObj eps)) = (out, Inr t)
             \<and> generate_rss w (JArr (map JObj eps)) = (out, toprettyxml w t)))
   \<and> ((\<exists>ep\<in>set eps. \<not> has_field ''filename'' ep)
      \<longrightarrow> (\<exists>out key. generate_rss w (JArr (map JObj eps)) = (out, Inl (KeyError key))))"
proof (intro conjI impI)
  assume "\<forall>x\<in>set eps. map_of (g x) ''filename'' = map_of x ''filename''
        \<and> map_of (g x) ''date'' = map_of x ''date''
        \<and> (file_exists w x \<longrightarrow> g x = x)"
  then have "rss_tree w (JArr (map JObj (map g eps))) = rss_tree w (JArr (map JObj eps))"
    by (rule rss_tree_map_skipped)
  then show "generate_rss w (JArr (map JObj (map g eps))) = generate_rss w (JArr (map JObj eps))"
    by (simp add: generate_rss_def)
next
  assume "\<forall>ep\<in>set eps. has_field ''filename'' ep
          \<and> (\<not> has_field ''title'' ep \<longrightarrow> \<not> file_exists w ep)"
  then have "\<forall>ep\<in>set eps. loop_ready w ep"
    by (auto simp: loop_ready_def)
  from rss_tree_ok [OF this]
  show "\<exists>out t. rss_tree w (JArr (map JObj eps)) = (out, Inr t)
             \<and> generate_rss w (JArr (map JObj eps)) = (out, toprettyxml w t)"
    by (auto simp: generate_rss_of_tree)
next
  assume "\<exists>ep\<in>set eps. \<not> has_field ''filename'' ep"
  then have "\<exists>ep\<in>set eps. \<not> loop_ready w ep"
    by (auto simp: loop_ready_def)
  from rss_tree_fail [OF this]
  show "\<exists>out key. generate_rss w (JArr (map JObj eps)) = (out, Inl (KeyError key))"
    by (auto simp: generate_rss_of_failure)
qed

theorem skipped_record_needs_no_title_witness:
  "generate_rss (sample_world Absent one_file) (JArr (map JObj [ep_found, ep_jan2]))
     = generate_rss (sample_world Absent one_file) (JArr (map JObj [ep_lost, ep_jan2]))
   \<and> (\<exists>out t. rss_tree (sample_world Absent one_file) (JArr (map JObj [ep_lost, ep_jan2])) = (out, Inr t)
         \<and> generate_rss (sample_world Absent one_file) (JArr (map JObj [ep_lost, ep_jan2]))
             = (out, toprettyxml (sample_world Absent one_file) t))
   \<and> (\<exists>out key. generate_rss (sample_world Absent one_file) (JArr (map JObj [ep_jan2, ep_nameless]))
         = (out, Inl (KeyError key)))"
proof -
  let ?w = "sample_world Absent one_file"
  let ?g = "\<lambda>x. if x = ep_lost then ep_found else x"
  have neq: "ep_jan2 \<noteq> ep_lost" by (simp add: ep_jan2_def ep_lost_def)
  have a: "\<forall>x\<in>set [ep_lost, ep_jan2]. map_of (?g x) ''filename'' = map_of x ''filename''
        \<and> map_of (?g x) ''date'' = map_of x ''date''
        \<and> (file_exists ?w x \<longrightarrow> ?g x = x)"
    by (simp add: neq one_file_exists) (simp add: ep_lost_def ep_found_def)
  have b: "\<forall>ep\<in>set [ep_lost, ep_jan2]. has_field ''filename'' ep
          \<and> (\<not> has_field ''title'' ep \<longrightarrow> \<not> file_exists ?w ep)"
    using sample_well_formed [unfolded well_formed_def]
    by (simp add: sample_untitled one_file_exists)
  have c: "\<exists>ep\<in>set [ep_jan2, ep_nameless]. \<not> has_field ''filename'' ep"
    by (simp add: ep_nameless_def has_field_def)
  from skipped_record_needs_no_title [of "[ep_lost, ep_jan2]" ?g ?w] a b
    skipped_record_needs_no_title [of "[ep_jan2, ep_nameless]" "\<lambda>x. x" ?w] c
  show ?thesis by (simp add: neq)
qed

text \<open>
  The claim as stated asks only that some record with a missing file lacks a title. In
  the list of \<open>ep_lost\<close> (no title, file missing) and \<open>ep_draft\<close> (no title, file on disk)
  every record has a filename, and the run ends in \<open>KeyError: 'title'\<close>.
\<close>

theorem untitled_existing_record_counterexample:
  "has_field ''filename'' ep_lost \<and> has_field ''filename'' ep_draft
   \<and> \<not> file_exists (sample_world Absent draft_file) ep_lost
   \<and> \<not> has_field ''title'' ep_lost
   \<and> generate_rss (sample_world Absent draft_file) (JArr (map JObj [ep_lost, ep_draft]))
       = ([''WARNING: episodes/lost.mp3 not found, skipping''], Inl (KeyError ''title''))"
proof -
  let ?w = "sample_world Absent draft_file"
  have order: "sorted_reverse date_key [ep_lost, ep_draft] = [ep_lost, ep_draft]"
    by (simp add: sorted_reverse_def date_key_def get_default_def sample_untitled)
  have lost: "filepath ep_lost = Inr ''episodes/lost.mp3''"
    "\<not> path_exists ?w ''episodes/lost.mp3''"
    by (simp_all add: filepath_def getitem_def path_join_def EPISODES_DIR_def ep_lost_def
        sample_world_def draft_file_def)
  have draft: "filepath ep_draft = Inr ''episodes/draft.mp3''"
    "path_exists ?w ''episodes/draft.mp3''"
    "build_item ?w 0 ''episodes/draft.mp3'' ep_draft = Inl (KeyError ''title'')"
    by (simp_all add: filepath_def getitem_def path_join_def EPISODES_DIR_def ep_draft_def
        sample_world_def draft_file_def build_item_def)
  have "rss_tree ?w (JArr (map JObj [ep_lost, ep_draft]))
      = ([''WARNING: episodes/lost.mp3 not found, skipping''], Inl (KeyError ''title''))"
    using keyed_map_JObj [of "[ep_lost, ep_draft]"]
    by (simp add: rss_tree_def order lost draft warning_def)
  then show ?thesis
    by (simp add: generate_rss_of_failure sample_untitled draft_file_exists)
qed

end
